theory Spec2Isabelle
  imports Main "HOL-Library.Sublist" "HOL-Library.Multiset"
begin

section \<open>Strings\<close>

text \<open>
  A JavaScript string is modelled as a \<^typ>\<open>string\<close>, a list of \<^typ>\<open>char\<close>: each
  \<^typ>\<open>char\<close> is one code unit below 256. On that range the white space of
  \<^verbatim>\<open>\s\<close> and of \<^verbatim>\<open>String.prototype.trim\<close> is TAB, LF, VT, FF, CR, SPACE and
  NBSP, and \<^verbatim>\<open>toLowerCase\<close> maps one code unit to one code unit: A-Z and the
  Latin-1 capitals 192-222 (without the multiplication sign 215) move up by 32.
\<close>

definition isWhiteSpace :: "char \<Rightarrow> bool" where
  "isWhiteSpace c \<longleftrightarrow> (of_char c :: nat) \<in> {9, 10, 11, 12, 13, 32, 160}"

definition toLowerChar :: "char \<Rightarrow> char" where
  "toLowerChar c =
     (let n = (of_char c :: nat) in
      if (65 \<le> n \<and> n \<le> 90) \<or> (192 \<le> n \<and> n \<le> 222 \<and> n \<noteq> 215)
      then char_of (n + 32) else c)"

definition toLowerCase :: "string \<Rightarrow> string" where
  "toLowerCase s = map toLowerChar s"

text \<open>\<^verbatim>\<open>s.endsWith(t)\<close> and \<^verbatim>\<open>s.startsWith(t)\<close>.\<close>

definition endsWith :: "string \<Rightarrow> string \<Rightarrow> bool" where
  "endsWith s t \<longleftrightarrow> suffix t s"

definition startsWith :: "string \<Rightarrow> string \<Rightarrow> bool" where
  "startsWith s t \<longleftrightarrow> prefix t s"

text \<open>\<^verbatim>\<open>s.trim()\<close>: white space is removed at the front, then at the back.\<close>

definition trimStart :: "string \<Rightarrow> string" where
  "trimStart s = dropWhile isWhiteSpace s"

definition trimEnd :: "string \<Rightarrow> string" where
  "trimEnd s = rev (dropWhile isWhiteSpace (rev s))"

definition trim :: "string \<Rightarrow> string" where
  "trim s = trimEnd (trimStart s)"

text \<open>
  \<^verbatim>\<open>s.replaceAll(/[...]+/g, r)\<close> for a character class: scanning from the left, every
  maximal run of characters of the class is replaced by one copy of \<open>r\<close>.
\<close>

function replaceRuns :: "(char \<Rightarrow> bool) \<Rightarrow> string \<Rightarrow> string \<Rightarrow> string" where
  "replaceRuns p r [] = []"
| "replaceRuns p r (c # cs) =
     (if p c then r @ replaceRuns p r (dropWhile p cs) else c # replaceRuns p r cs)"
  by pat_completeness auto
termination
  by (relation "measure (\<lambda>(p, r, s). length s)")
     (auto simp: length_dropWhile_le le_imp_less_Suc)

section \<open>Archive file names\<close>

text \<open>The class \<^verbatim>\<open>[<>:"/\\|?*]\<close> of \<^verbatim>\<open>sanitizeFilename\<close>.\<close>

definition forbiddenChar :: "char \<Rightarrow> bool" where
  "forbiddenChar c \<longleftrightarrow>
     c \<in> {CHR ''<'', CHR ''>'', CHR '':'', CHR 0x22, CHR ''/'', CHR 0x5C, CHR ''|'', CHR ''?'', CHR ''*''}"

definition sanitizeFilename :: "string \<Rightarrow> string" where
  "sanitizeFilename filename =
     trim (replaceRuns isWhiteSpace '' '' (replaceRuns forbiddenChar ''-'' filename))"

definition ensureZipFilename :: "string \<Rightarrow> string" where
  "ensureZipFilename filename =
     (let cleaned = sanitizeFilename filename;
          safe = (if length cleaned > 0 then cleaned else ''downloaded-directory'')
      in if endsWith safe ''.zip'' then safe else safe @ ''.zip'')"

subsection \<open>Facts about the string helpers\<close>

lemma replaceRuns_not_p:
  "(\<And>c. c \<in> set r \<Longrightarrow> \<not> p c) \<Longrightarrow> c \<in> set (replaceRuns p r s) \<Longrightarrow> \<not> p c"
proof (induction p r s rule: replaceRuns.induct)
  case (1 p r)
  then show ?case by simp
next
  case (2 p r d ds)
  show ?case
  proof (cases "p d")
    case True
    with 2(4) have "c \<in> set r \<or> c \<in> set (replaceRuns p r (dropWhile p ds))" by simp
    then show ?thesis using 2(1)[OF True 2(3)] 2(3) by blast
  next
    case False
    with 2(4) have "c = d \<or> c \<in> set (replaceRuns p r ds)" by simp
    then show ?thesis using 2(2)[OF False 2(3)] False by blast
  qed
qed

lemma replaceRuns_set: "set (replaceRuns p r s) \<subseteq> set s \<union> set r"
proof (induction p r s rule: replaceRuns.induct)
  case (1 p r)
  then show ?case by simp
next
  case (2 p r d ds)
  have "set (dropWhile p ds) \<subseteq> set ds" by (meson set_dropWhileD subsetI)
  then show ?case using 2 by (cases "p d") auto
qed

lemma replaceRuns_filter:
  "(\<And>c. p c \<Longrightarrow> \<not> q c) \<Longrightarrow> (\<And>c. c \<in> set r \<Longrightarrow> \<not> q c) \<Longrightarrow>
   filter q (replaceRuns p r s) = filter q s"
proof (induction p r s rule: replaceRuns.induct)
  case (1 p r)
  then show ?case by simp
next
  case (2 p r c cs)
  have d: "filter q (dropWhile p cs) = filter q cs"
    using 2(3) by (induction cs) auto
  have r: "filter q r = []" using 2(4) by (induction r) auto
  show ?case using 2 d r by auto
qed

lemma replaceRuns_hd:
  "s \<noteq> [] \<Longrightarrow> \<not> p (hd s) \<Longrightarrow> replaceRuns p r s \<noteq> [] \<and> hd (replaceRuns p r s) = hd s"
  by (cases s) auto

lemma isWhiteSpace_space: "isWhiteSpace (CHR '' '')"
  by (simp add: isWhiteSpace_def)

lemma replaceRuns_ws_only_space:
  "c \<in> set (replaceRuns isWhiteSpace '' '' s) \<Longrightarrow> isWhiteSpace c \<Longrightarrow> c = CHR '' ''"
proof (induction isWhiteSpace "'' ''" s rule: replaceRuns.induct)
  case 1
  then show ?case by simp
next
  case (2 d ds)
  then show ?case by (cases "isWhiteSpace d") auto
qed

lemma replaceRuns_ws_no_double:
  "\<not> sublist ''  '' (replaceRuns isWhiteSpace '' '' s)"
proof (induction isWhiteSpace "'' ''" s rule: replaceRuns.induct)
  case 1
  then show ?case by simp
next
  case (2 d ds)
  show ?case
  proof (cases "isWhiteSpace d")
    case True
    let ?rest = "dropWhile isWhiteSpace ds"
    let ?X = "replaceRuns isWhiteSpace '' '' ?rest"
    have ih: "\<not> sublist ''  '' ?X" using 2(1)[OF True] .
    have "\<not> prefix '' '' ?X"
    proof (cases "?rest = []")
      case True
      have "replaceRuns isWhiteSpace '' '' [] = []" by simp
      then have "?X = []" using True by (simp only:)
      then show ?thesis by (simp only: prefix_bot.extremum_unique) simp
    next
      case False
      then have "\<not> isWhiteSpace (hd ?rest)" by (rule hd_dropWhile)
      with False have "?X \<noteq> [] \<and> hd ?X = hd ?rest" by (simp add: replaceRuns_hd)
      with \<open>\<not> isWhiteSpace (hd ?rest)\<close> isWhiteSpace_space show ?thesis
        by (cases ?X) auto
    qed
    with ih True show ?thesis by (simp add: sublist_Cons_right)
  next
    case False
    then have "d \<noteq> CHR '' ''" using isWhiteSpace_space by auto
    with 2(2)[OF False] False show ?thesis by (simp add: sublist_Cons_right)
  qed
qed

lemma trimEnd_prefix: "prefix (trimEnd s) s"
  unfolding trimEnd_def prefix_def
  by (metis rev_append rev_rev_ident takeWhile_dropWhile_id)

lemma trim_sublist: "sublist (trim s) s"
proof -
  have "suffix (trimStart s) s" unfolding trimStart_def by (rule suffix_dropWhile)
  moreover have "prefix (trim s) (trimStart s)" unfolding trim_def by (rule trimEnd_prefix)
  ultimately show ?thesis
    by (meson prefix_imp_sublist suffix_imp_sublist sublist_order.order_trans)
qed

lemma trim_set: "set (trim s) \<subseteq> set s"
  using trim_sublist set_mono_sublist by blast

lemma trim_hd: "trim s \<noteq> [] \<Longrightarrow> \<not> isWhiteSpace (hd (trim s))"
proof -
  assume ne: "trim s \<noteq> []"
  let ?u = "trimStart s"
  have p: "prefix (trim s) ?u" unfolding trim_def by (rule trimEnd_prefix)
  then have "?u \<noteq> []" using ne by auto
  moreover have "hd (trim s) = hd ?u" using p ne by (auto simp: prefix_def)
  ultimately show ?thesis unfolding trimStart_def using hd_dropWhile by metis
qed

lemma trim_last: "trim s \<noteq> [] \<Longrightarrow> \<not> isWhiteSpace (last (trim s))"
  unfolding trim_def trimEnd_def
  by (simp add: last_rev hd_dropWhile)

lemma trim_filter:
  assumes "\<And>c. isWhiteSpace c \<Longrightarrow> \<not> q c"
  shows "filter q (trim s) = filter q s"
proof -
  have d: "filter q (dropWhile isWhiteSpace xs) = filter q xs" for xs
    using assms by (induction xs) auto
  have "filter q (trim s) = rev (filter q (dropWhile isWhiteSpace (rev (trimStart s))))"
    unfolding trim_def trimEnd_def by (simp add: rev_filter)
  also have "\<dots> = filter q (trimStart s)" by (simp add: d rev_filter)
  also have "\<dots> = filter q s" unfolding trimStart_def by (rule d)
  finally show ?thesis .
qed

subsection \<open>The sanitised name\<close>

lemma sanitizeFilename_chars:
  assumes "c \<in> set (sanitizeFilename s)"
  shows "\<not> forbiddenChar c" and "isWhiteSpace c \<Longrightarrow> c = CHR '' ''"
proof -
  let ?a = "replaceRuns forbiddenChar ''-'' s"
  let ?b = "replaceRuns isWhiteSpace '' '' ?a"
  from assms have cb: "c \<in> set ?b"
    unfolding sanitizeFilename_def using trim_set by blast
  then have "c \<in> set ?a \<or> c = CHR '' ''" using replaceRuns_set[of isWhiteSpace "'' ''" ?a] by auto
  moreover have "\<not> forbiddenChar c" if "c \<in> set ?a"
    using that by (rule replaceRuns_not_p[rotated]) (simp add: forbiddenChar_def)
  moreover have "\<not> forbiddenChar (CHR '' '')" by (simp add: forbiddenChar_def)
  ultimately show "\<not> forbiddenChar c" by blast
  show "isWhiteSpace c \<Longrightarrow> c = CHR '' ''" using cb by (rule replaceRuns_ws_only_space)
qed

lemma sanitizeFilename_no_double: "\<not> sublist ''  '' (sanitizeFilename s)"
  unfolding sanitizeFilename_def
  using replaceRuns_ws_no_double trim_sublist sublist_order.order_trans by blast

lemma sanitizeFilename_ends:
  "\<not> startsWith (sanitizeFilename s) '' ''" "\<not> endsWith (sanitizeFilename s) '' ''"
proof -
  let ?t = "sanitizeFilename s"
  have h: "?t \<noteq> [] \<Longrightarrow> hd ?t \<noteq> CHR '' ''"
    unfolding sanitizeFilename_def using trim_hd isWhiteSpace_space by metis
  have l: "?t \<noteq> [] \<Longrightarrow> last ?t \<noteq> CHR '' ''"
    unfolding sanitizeFilename_def using trim_last isWhiteSpace_space by metis
  show "\<not> startsWith ?t '' ''" using h by (cases ?t) (auto simp: startsWith_def)
  show "\<not> endsWith ?t '' ''" using l by (auto simp: endsWith_def suffix_def)
qed

lemma sanitizeFilename_keeps:
  "filter (\<lambda>c. \<not> forbiddenChar c \<and> \<not> isWhiteSpace c \<and> c \<noteq> CHR ''-'') (sanitizeFilename s) =
   filter (\<lambda>c. \<not> forbiddenChar c \<and> \<not> isWhiteSpace c \<and> c \<noteq> CHR ''-'') s"
proof -
  let ?q = "\<lambda>c. \<not> forbiddenChar c \<and> \<not> isWhiteSpace c \<and> c \<noteq> CHR ''-''"
  let ?a = "replaceRuns forbiddenChar ''-'' s"
  let ?b = "replaceRuns isWhiteSpace '' '' ?a"
  have "filter ?q (trim ?b) = filter ?q ?b"
    by (rule trim_filter) simp
  also have "\<dots> = filter ?q ?a"
    by (rule replaceRuns_filter) (auto simp: isWhiteSpace_space)
  also have "\<dots> = filter ?q s"
    by (rule replaceRuns_filter) auto
  finally show ?thesis unfolding sanitizeFilename_def .
qed

lemma replaceRuns_single:
  assumes "\<forall>(a, b)\<in>set (zip s (tl s)). \<not> (p a \<and> p b)"
  shows "replaceRuns p [r] s = map (\<lambda>c. if p c then r else c) s"
  using assms
proof (induction s)
  case Nil
  then show ?case by simp
next
  case (Cons c cs)
  have ih: "replaceRuns p [r] cs = map (\<lambda>c. if p c then r else c) cs"
    using Cons by (cases cs) auto
  show ?case
  proof (cases "p c")
    case True
    have "dropWhile p cs = cs"
    proof (cases cs)
      case Nil
      then show ?thesis by simp
    next
      case (Cons d ds)
      then have "\<not> p d" using True Cons.prems by auto
      then show ?thesis using Cons by simp
    qed
    then show ?thesis using True ih by simp
  next
    case False
    then show ?thesis using ih by simp
  qed
qed

lemma replaceRuns_none: "\<forall>c\<in>set s. \<not> p c \<Longrightarrow> replaceRuns p r s = s"
  by (induction s) auto

lemma trim_none: "\<forall>c\<in>set s. \<not> isWhiteSpace c \<Longrightarrow> trim s = s"
proof -
  assume a: "\<forall>c\<in>set s. \<not> isWhiteSpace c"
  have d: "dropWhile isWhiteSpace xs = xs" if "\<forall>c\<in>set xs. \<not> isWhiteSpace c" for xs
    using that by (cases xs) auto
  have "trimStart s = s" unfolding trimStart_def using a by (rule d)
  moreover have "trimEnd s = s" unfolding trimEnd_def using a d[of "rev s"] by simp
  ultimately show ?thesis by (simp add: trim_def)
qed

lemma sanitizeFilename_single:
  assumes "\<forall>c\<in>set s. \<not> isWhiteSpace c"
    and "\<forall>(a, b)\<in>set (zip s (tl s)). \<not> (forbiddenChar a \<and> forbiddenChar b)"
  shows "sanitizeFilename s = map (\<lambda>c. if forbiddenChar c then CHR ''-'' else c) s"
proof -
  let ?m = "map (\<lambda>c. if forbiddenChar c then CHR ''-'' else c) s"
  have 1: "replaceRuns forbiddenChar ''-'' s = ?m" using assms(2) by (rule replaceRuns_single)
  have "\<not> isWhiteSpace (CHR ''-'')" by (simp add: isWhiteSpace_def)
  then have w: "\<forall>c\<in>set ?m. \<not> isWhiteSpace c" using assms(1) by auto
  then have 2: "replaceRuns isWhiteSpace '' '' ?m = ?m" by (rule replaceRuns_none)
  have 3: "trim ?m = ?m" using w by (rule trim_none)
  show ?thesis unfolding sanitizeFilename_def 1 2 3 ..
qed

text \<open>
  Claim C9. For every input string the name made by \<open>ensureZipFilename\<close> is not empty and
  ends with \<open>.zip\<close>. The sanitised name has no character of the forbidden class, its only
  white space is the space character, never two in a row and never at either end, and
  the characters that are neither forbidden, white space nor a dash are those of the
  input in the same order. A run of forbidden characters becomes one dash: in an input
  without white space and without two forbidden characters in a row, each forbidden
  character is replaced by a dash and nothing else changes. When the sanitised name is
  empty the result is \<open>downloaded-directory.zip\<close>; when it already ends with \<open>.zip\<close>
  it is returned as it is; otherwise \<open>.zip\<close> is appended once.
\<close>

theorem ensureZipFilename_spec:
  "ensureZipFilename s \<noteq> []
   \<and> endsWith (ensureZipFilename s) ''.zip''
   \<and> (\<forall>c\<in>set (sanitizeFilename s). \<not> forbiddenChar c \<and> (isWhiteSpace c \<longrightarrow> c = CHR '' ''))
   \<and> \<not> sublist ''  '' (sanitizeFilename s)
   \<and> \<not> startsWith (sanitizeFilename s) '' '' \<and> \<not> endsWith (sanitizeFilename s) '' ''
   \<and> filter (\<lambda>c. \<not> forbiddenChar c \<and> \<not> isWhiteSpace c \<and> c \<noteq> CHR ''-'') (sanitizeFilename s) =
     filter (\<lambda>c. \<not> forbiddenChar c \<and> \<not> isWhiteSpace c \<and> c \<noteq> CHR ''-'') s
   \<and> ((\<forall>c\<in>set s. \<not> isWhiteSpace c)
        \<and> (\<forall>(a, b)\<in>set (zip s (tl s)). \<not> (forbiddenChar a \<and> forbiddenChar b)) \<longrightarrow>
        sanitizeFilename s = map (\<lambda>c. if forbiddenChar c then CHR ''-'' else c) s)
   \<and> (sanitizeFilename s = [] \<longrightarrow> ensureZipFilename s = ''downloaded-directory.zip'')
   \<and> (endsWith (sanitizeFilename s) ''.zip'' \<longrightarrow> ensureZipFilename s = sanitizeFilename s)
   \<and> (sanitizeFilename s \<noteq> [] \<and> \<not> endsWith (sanitizeFilename s) ''.zip'' \<longrightarrow>
        ensureZipFilename s = sanitizeFilename s @ ''.zip'')"
proof -
  let ?t = "sanitizeFilename s"
  have d: "\<not> endsWith ''downloaded-directory'' ''.zip''"
    by (simp add: endsWith_def suffix_def)
  have e: "endsWith ?t ''.zip'' \<Longrightarrow> ?t \<noteq> []"
    by (auto simp: endsWith_def)
  have 1: "ensureZipFilename s \<noteq> []"
    by (simp add: ensureZipFilename_def Let_def)
  have 2: "endsWith (ensureZipFilename s) ''.zip''"
    by (auto simp: ensureZipFilename_def Let_def endsWith_def suffix_def)
  have 3: "\<forall>c\<in>set ?t. \<not> forbiddenChar c \<and> (isWhiteSpace c \<longrightarrow> c = CHR '' '')"
    using sanitizeFilename_chars by blast
  have 4: "?t = [] \<longrightarrow> ensureZipFilename s = ''downloaded-directory.zip''"
    using d by (simp add: ensureZipFilename_def Let_def)
  have 5: "endsWith ?t ''.zip'' \<longrightarrow> ensureZipFilename s = ?t"
    using e by (auto simp: ensureZipFilename_def Let_def)
  have 6: "?t \<noteq> [] \<and> \<not> endsWith ?t ''.zip'' \<longrightarrow> ensureZipFilename s = ?t @ ''.zip''"
    by (simp add: ensureZipFilename_def Let_def)
  have 7: "(\<forall>c\<in>set s. \<not> isWhiteSpace c)
        \<and> (\<forall>(a, b)\<in>set (zip s (tl s)). \<not> (forbiddenChar a \<and> forbiddenChar b)) \<longrightarrow>
        ?t = map (\<lambda>c. if forbiddenChar c then CHR ''-'' else c) s"
    using sanitizeFilename_single by blast
  note 8 = sanitizeFilename_no_double[of s] sanitizeFilename_ends[of s] sanitizeFilename_keeps[of s]
  show ?thesis
    by (intro conjI) (rule 1 2 3 4 5 6 7 8)+
qed

theorem ensureZipFilename_spec_witness:
  "sanitizeFilename ''  '' = [] \<and> ensureZipFilename ''  '' = ''downloaded-directory.zip''
   \<and> endsWith (sanitizeFilename ''src.zip'') ''.zip'' \<and> ensureZipFilename ''src.zip'' = ''src.zip''
   \<and> sanitizeFilename ''a<>b:  c '' = ''a-b- c'' \<and> ensureZipFilename ''a<>b:  c '' = ''a-b- c.zip''
   \<and> list_all (\<lambda>c. \<not> isWhiteSpace c) ''a:b/c''
   \<and> list_all (\<lambda>(a, b). \<not> (forbiddenChar a \<and> forbiddenChar b)) (zip ''a:b/c'' (tl ''a:b/c''))
   \<and> sanitizeFilename ''a:b/c'' = ''a-b-c''"
proof -
  have k1: "list_all (\<lambda>c. \<not> isWhiteSpace c) ''a:b/c''" by code_simp
  have k2: "list_all (\<lambda>(a, b). \<not> (forbiddenChar a \<and> forbiddenChar b)) (zip ''a:b/c'' (tl ''a:b/c''))"
    by code_simp
  have k3: "map (\<lambda>c. if forbiddenChar c then CHR ''-'' else c) ''a:b/c'' = ''a-b-c''" by code_simp
  from ensureZipFilename_spec[of "''a:b/c''"]
  have "(\<forall>c\<in>set ''a:b/c''. \<not> isWhiteSpace c)
        \<and> (\<forall>(a, b)\<in>set (zip ''a:b/c'' (tl ''a:b/c'')). \<not> (forbiddenChar a \<and> forbiddenChar b)) \<longrightarrow>
        sanitizeFilename ''a:b/c'' = map (\<lambda>c. if forbiddenChar c then CHR ''-'' else c) ''a:b/c''"
    by (elim conjE) assumption
  moreover have "(\<forall>c\<in>set ''a:b/c''. \<not> isWhiteSpace c)
        \<and> (\<forall>(a, b)\<in>set (zip ''a:b/c'' (tl ''a:b/c'')). \<not> (forbiddenChar a \<and> forbiddenChar b))"
    using k1 k2 unfolding list_all_iff by (rule conjI)
  ultimately have k4: "sanitizeFilename ''a:b/c'' =
      map (\<lambda>c. if forbiddenChar c then CHR ''-'' else c) ''a:b/c''"
    by (rule mp)
  have k5: "sanitizeFilename ''a:b/c'' = ''a-b-c''" using k4 k3 by simp
  have h1: "sanitizeFilename ''  '' = []" by code_simp
  have h2: "endsWith (sanitizeFilename ''src.zip'') ''.zip''" by code_simp
  have h3: "sanitizeFilename ''a<>b:  c '' = ''a-b- c''" by code_simp
  have h4: "\<not> endsWith ''a-b- c'' ''.zip''" by code_simp
  from ensureZipFilename_spec[of "''  ''"]
  have "sanitizeFilename ''  '' = [] \<longrightarrow> ensureZipFilename ''  '' = ''downloaded-directory.zip''"
    by (elim conjE) assumption
  then have c1: "ensureZipFilename ''  '' = ''downloaded-directory.zip''"
    using h1 by (rule mp)
  from ensureZipFilename_spec[of "''src.zip''"]
  have "endsWith (sanitizeFilename ''src.zip'') ''.zip'' \<longrightarrow>
        ensureZipFilename ''src.zip'' = sanitizeFilename ''src.zip''"
    by (elim conjE) assumption
  then have c2: "ensureZipFilename ''src.zip'' = sanitizeFilename ''src.zip''"
    using h2 by (rule mp)
  from ensureZipFilename_spec[of "''a<>b:  c ''"]
  have "sanitizeFilename ''a<>b:  c '' \<noteq> [] \<and> \<not> endsWith (sanitizeFilename ''a<>b:  c '') ''.zip'' \<longrightarrow>
        ensureZipFilename ''a<>b:  c '' = sanitizeFilename ''a<>b:  c '' @ ''.zip''"
    by (elim conjE) assumption
  then have c3: "ensureZipFilename ''a<>b:  c '' = sanitizeFilename ''a<>b:  c '' @ ''.zip''"
    using h3 h4 by simp
  have s2: "sanitizeFilename ''src.zip'' = ''src.zip''" by code_simp
  have c2': "ensureZipFilename ''src.zip'' = ''src.zip''" using c2 s2 by simp
  have c3': "ensureZipFilename ''a<>b:  c '' = ''a-b- c.zip''" using c3 h3 by simp
  show ?thesis
    by (intro conjI) (rule h1 h2 h3 c1 c2' c3' k1 k2 k5)+
qed

section \<open>The concurrency limit\<close>

text \<open>
  \<^verbatim>\<open>Number.parseInt(value, 10)\<close>: leading white space is skipped, one sign is read, then
  the longest run of decimal digits; with no digit the result is \<^verbatim>\<open>NaN\<close>, here
  \<open>None\<close>. The value is kept as an unbounded integer: the rounding of a long digit
  string to a double is monotone and leaves 1 and 40 as they are, so it cannot change
  what the clamp below returns.
\<close>

definition isDigit :: "char \<Rightarrow> bool" where
  "isDigit c \<longleftrightarrow> 48 \<le> (of_char c :: nat) \<and> (of_char c :: nat) \<le> 57"

definition digitsValue :: "string \<Rightarrow> int" where
  "digitsValue z = foldl (\<lambda>a c. 10 * a + (int (of_char c) - 48)) 0 z"

definition parseInt10 :: "string \<Rightarrow> int option" where
  "parseInt10 s =
     (let S = trimStart s;
          neg = (S \<noteq> [] \<and> hd S = CHR ''-'');
          S' = (if S \<noteq> [] \<and> (hd S = CHR ''+'' \<or> hd S = CHR ''-'') then tl S else S);
          Z = takeWhile isDigit S'
      in if Z = [] then None else Some ((if neg then - 1 else 1) * digitsValue Z))"

text \<open>
  \<^verbatim>\<open>Number.isNaN(concurrency) ? 20 : Math.max(1, Math.min(40, concurrency))\<close> on the
  value of the concurrency control.
\<close>

definition safeConcurrency :: "string \<Rightarrow> int" where
  "safeConcurrency v =
     (case parseInt10 v of None \<Rightarrow> 20 | Some concurrency \<Rightarrow> max 1 (min 40 concurrency))"

text \<open>
  Claim C4. For every input string the limit handed to the fetch pool lies in 1..40:
  an input that does not parse gives 20, a parsed value below 1 gives 1, a parsed value
  above 40 gives 40, and a parsed value within 1..40 is used as it is.
\<close>

theorem safeConcurrency_spec:
  "1 \<le> safeConcurrency v \<and> safeConcurrency v \<le> 40
   \<and> (parseInt10 v = None \<longrightarrow> safeConcurrency v = 20)
   \<and> (\<forall>n. parseInt10 v = Some n \<longrightarrow>
         (n < 1 \<longrightarrow> safeConcurrency v = 1)
       \<and> (40 < n \<longrightarrow> safeConcurrency v = 40)
       \<and> (1 \<le> n \<and> n \<le> 40 \<longrightarrow> safeConcurrency v = n))"
  by (auto simp: safeConcurrency_def split: option.splits)

theorem safeConcurrency_spec_witness:
  "parseInt10 ''fast'' = None \<and> safeConcurrency ''fast'' = 20
   \<and> parseInt10 '' -3'' = Some (- 3) \<and> safeConcurrency '' -3'' = 1
   \<and> parseInt10 ''64'' = Some 64 \<and> safeConcurrency ''64'' = 40
   \<and> parseInt10 ''8px'' = Some 8 \<and> safeConcurrency ''8px'' = 8"
proof -
  have h1: "parseInt10 ''fast'' = None" by code_simp
  have h2: "parseInt10 '' -3'' = Some (- 3)" by code_simp
  have h3: "parseInt10 ''64'' = Some 64" by code_simp
  have h4: "parseInt10 ''8px'' = Some 8" by code_simp
  have c1: "safeConcurrency ''fast'' = 20"
    using safeConcurrency_spec[of "''fast''"] h1 by blast
  have c2: "safeConcurrency '' -3'' = 1"
    using safeConcurrency_spec[of "'' -3''"] h2 by simp
  have c3: "safeConcurrency ''64'' = 40"
    using safeConcurrency_spec[of "''64''"] h3 by simp
  have c4: "safeConcurrency ''8px'' = 8"
    using safeConcurrency_spec[of "''8px''"] h4 by simp
  show ?thesis using h1 h2 h3 h4 c1 c2 c3 c4 by simp
qed

section \<open>File descriptors and the extension filter\<close>

text \<open>
  A listed file (\<^verbatim>\<open>RepoFile\<close>): its path, its size when the listing reports a number,
  and the handle the download uses. The sizes are integers; the sum below is exact as
  long as it stays under \<open>2^53\<close>, which a JavaScript number holds without rounding.
\<close>

type_synonym blob = string

record repoFile =
  path :: string
  fileSize :: "int option"
  sha :: string



definition filterFiles :: "repoFile list \<Rightarrow> string list \<Rightarrow> repoFile list" where
  "filterFiles files extensions =
     (if length extensions = 0 then files
      else filter (\<lambda>file. list_ex (\<lambda>extension. endsWith (toLowerCase (path file)) extension)
                     extensions) files)"

definition estimateBytes :: "repoFile list \<Rightarrow> int" where
  "estimateBytes files =
     foldl (\<lambda>total file. case fileSize file of Some n \<Rightarrow> total + n | None \<Rightarrow> total) 0 files"









text \<open>
  Claim C6. Filtering is idempotent: filtering a filtered list again with the same
  filter set gives the same list, for every list and every filter set.
\<close>

theorem filterFiles_idempotent:
  "filterFiles (filterFiles files exts) exts = filterFiles files exts"
  by (simp add: filterFiles_def)

section \<open>The recent links\<close>

text \<open>
  The entry of \<^verbatim>\<open>localStorage\<close> under the key of the recent links, described by what
  \<^verbatim>\<open>JSON.parse\<close> makes of it: no entry, a text that is not JSON, a JSON value that is
  not an array, or an array, whose items are strings or something else. Writing a list
  of strings with \<^verbatim>\<open>JSON.stringify\<close> leaves a text that parses to the array of these
  strings. The write is taken to succeed.
\<close>

datatype jsonItem = JString string | JOther

datatype storedValue = NoEntry | NotJson | NotArray | JArray "jsonItem list"

fun stringsOf :: "jsonItem list \<Rightarrow> string list" where
  "stringsOf [] = []"
| "stringsOf (JString s # items) = s # stringsOf items"
| "stringsOf (JOther # items) = stringsOf items"

definition readRecentUrls :: "storedValue \<Rightarrow> string list" where
  "readRecentUrls stored =
     (case stored of
        NoEntry \<Rightarrow> take 7 (stringsOf [])
      | NotJson \<Rightarrow> []
      | NotArray \<Rightarrow> []
      | JArray parsed \<Rightarrow> take 7 (stringsOf parsed))"

definition writeRecentUrls :: "string list \<Rightarrow> storedValue" where
  "writeRecentUrls urls = JArray (map JString (take 7 urls))"

definition pushRecentUrl :: "string \<Rightarrow> storedValue \<Rightarrow> storedValue" where
  "pushRecentUrl url stored =
     (let urls = filter (\<lambda>item. item \<noteq> url) (readRecentUrls stored)
      in writeRecentUrls (url # urls))"

definition storedList :: "storedValue \<Rightarrow> jsonItem list" where
  "storedList stored = (case stored of JArray items \<Rightarrow> items | _ \<Rightarrow> [])"

lemma stringsOf_JString: "stringsOf (map JString xs) = xs"
  by (induction xs) auto

lemma readRecentUrls_write: "readRecentUrls (writeRecentUrls urls) = take 7 urls"
  by (simp add: readRecentUrls_def writeRecentUrls_def stringsOf_JString)

text \<open>
  Claim C10. Whatever the storage holds, a read returns at most 7 links; every list
  that a write or a push stores has at most 7 entries; and after a push the list read
  back has the pushed link at the front and nowhere else, followed by the links that
  were there before, without the pushed one, as far as 7 entries allow.
\<close>

theorem recentUrls_invariants:
  "length (readRecentUrls stored) \<le> 7
   \<and> length (storedList (writeRecentUrls urls)) \<le> 7
   \<and> length (storedList (pushRecentUrl url stored)) \<le> 7
   \<and> readRecentUrls (writeRecentUrls urls) = take 7 urls
   \<and> readRecentUrls (pushRecentUrl url stored) =
       url # take 6 (filter (\<lambda>item. item \<noteq> url) (readRecentUrls stored))
   \<and> hd (readRecentUrls (pushRecentUrl url stored)) = url
   \<and> count_list (readRecentUrls (pushRecentUrl url stored)) url = 1"
proof -
  let ?old = "filter (\<lambda>item. item \<noteq> url) (readRecentUrls stored)"
  have r: "readRecentUrls (pushRecentUrl url stored) = url # take 6 ?old"
    by (simp add: pushRecentUrl_def readRecentUrls_write)
  have "url \<notin> set (take 6 ?old)"
    using in_set_takeD by fastforce
  then have c: "count_list (take 6 ?old) url = 0"
    by (simp add: count_list_0_iff)
  have 1: "length (readRecentUrls stored) \<le> 7"
    by (cases stored) (simp_all add: readRecentUrls_def)
  have 2: "length (storedList (writeRecentUrls urls)) \<le> 7"
    by (simp add: storedList_def writeRecentUrls_def)
  have 3: "length (storedList (pushRecentUrl url stored)) \<le> 7"
    by (simp add: storedList_def writeRecentUrls_def pushRecentUrl_def)
  show ?thesis using r c 1 2 3 readRecentUrls_write by simp
qed

section \<open>The download session\<close>

text \<open>
  What a JavaScript \<^verbatim>\<open>catch\<close> can receive here: the \<^verbatim>\<open>DOMException\<close> named
  \<^verbatim>\<open>AbortError\<close> that an aborted request rejects with, an \<^verbatim>\<open>Error\<close> with its
  message, or a value that is not an \<^verbatim>\<open>Error\<close>.
\<close>

datatype jsError = AbortError | JsError string | NonError

definition isAbortError :: "jsError \<Rightarrow> bool" where
  "isAbortError error \<longleftrightarrow> error = AbortError"

definition isError :: "jsError \<Rightarrow> bool" where
  "isError error \<longleftrightarrow> error \<noteq> NonError"

text \<open>
  What the outside world does is a parameter of the model. A fetch of one file
  (\<^verbatim>\<open>downloadFile\<close>) either resolves with the bytes or rejects. While fetches are in
  flight the next thing that happens is one of four events: a fetch in flight settles
  (\<open>Settle n\<close> picks which one, so every completion order is a schedule), the user
  presses Escape, the user clicks the Cancel or the Clear control, or a fetch settles
  that an earlier call of \<^verbatim>\<open>pMap\<close> left in flight when it rejected (\<open>Late n\<close> picks which
  one).
\<close>

datatype fetchOutcome = Fetched blob | Threw jsError

datatype event = Settle nat | EscapeKey | CancelClick | Late nat

text \<open>What \<^verbatim>\<open>saveFile\<close> is given: the zip built from the entries, or the archive as fetched.\<close>

datatype archive = ZipArchive "(string \<times> blob) list" | RawArchive blob

record queueItem =
  itemUrl :: string
  itemFilename :: "string option"
  itemFilter :: "string option"

text \<open>
  The mutable state of the page: \<^verbatim>\<open>downloadState\<close> (the controller is split into
  whether \<^verbatim>\<open>downloadState.controller\<close> is set and whether the signal of the running
  job is aborted), the form fields and storage entries the code reads, and the effects
  a run leaves behind: the entries given to \<^verbatim>\<open>zip.file\<close>, the paths handed to
  \<^verbatim>\<open>downloadFile\<close>, the calls of \<^verbatim>\<open>pMap\<close> (label, batch, limit), the calls of
  \<^verbatim>\<open>saveFile\<close>, the browser navigations and the links \<^verbatim>\<open>runDownload\<close> was called
  with. \<open>trace\<close> keeps the counters as they stand at the start of every batch and after
  every step that changes them; each of these steps is followed in the source by
  \<^verbatim>\<open>updateProgress\<close> or \<^verbatim>\<open>renderFailureList\<close>, which show these counters. Status
  lines, timers and the rendering of the page are left out.

  The mapper of a call of \<^verbatim>\<open>pMap\<close> that has rejected is not stopped: the fetches it had
  in flight go on, and when one settles the rest of its mapper runs on the same
  \<^verbatim>\<open>downloadState\<close>, whatever job is running by then. \<open>abandoned\<close> holds these fetches,
  each with the file, its outcome, and whether the signal of its own job was aborted
  (that signal cannot change any more once its job has ended, since \<^verbatim>\<open>runDownload\<close>
  forgets the controller). \<open>cleared\<close> counts the calls of \<^verbatim>\<open>clearAll\<close> and
  \<open>lateSettled\<close> the abandoned fetches whose settling changed a counter; every entry of
  the trace carries the two numbers as they stood when it was taken, so that the
  entries taken before such a step can be told from those taken after it.
\<close>

record session =
  controller :: bool
  signalAborted :: bool
  totalFiles :: nat
  downloadedFiles :: nat
  estimatedBytes :: int
  failedFiles :: "string list"
  queue :: "queueItem list"
  isProcessingQueue :: bool
  uiFilename :: string
  uiFilter :: string
  uiConcurrency :: string
  storedToken :: "string option"
  storedRecent :: storedValue
  zip :: "(string \<times> blob) list"
  fetchLog :: "string list"
  batchLog :: "(string \<times> repoFile list \<times> int) list"
  savedFiles :: "(string \<times> archive) list"
  navigations :: "string list"
  runLog :: "string list"
  abandoned :: "(bool \<times> repoFile \<times> fetchOutcome) list"
  cleared :: nat
  lateSettled :: nat
  trace :: "((nat \<times> nat) \<times> nat \<times> nat \<times> string list \<times> int) list"

definition snapshot :: "session \<Rightarrow> session" where
  "snapshot st =
     st\<lparr>trace := trace st @ [((cleared st, lateSettled st),
                               totalFiles st, downloadedFiles st, failedFiles st, estimatedBytes st)]\<rparr>"

definition resetSession :: "session \<Rightarrow> session" where
  "resetSession st =
     snapshot (st\<lparr>totalFiles := 0, downloadedFiles := 0, estimatedBytes := 0, failedFiles := []\<rparr>)"

text \<open>
  The Escape key runs \<^verbatim>\<open>downloadState.controller?.abort()\<close>. \<^verbatim>\<open>clearAll\<close>, behind the
  Cancel and the Clear control, aborts too, forgets the controller, resets the counters,
  empties the form, the token, the recent links and the queue.
\<close>

definition pressEscape :: "session \<Rightarrow> session" where
  "pressEscape st = (if controller st then st\<lparr>signalAborted := True\<rparr> else st)"

definition clearAll :: "session \<Rightarrow> session" where
  "clearAll st =
     (let st1 = (pressEscape st)\<lparr>controller := False, cleared := cleared st + 1\<rparr>;
          st2 = resetSession st1;
          st3 = st2\<lparr>uiFilename := [], uiFilter := [], storedToken := None\<rparr>;
          st4 = st3\<lparr>storedRecent := writeRecentUrls []\<rparr>
      in st4\<lparr>queue := []\<rparr>)"

text \<open>
  \<^verbatim>\<open>/malware|virus|trojan/i.test(s)\<close>: one of the three words occurs in \<open>s\<close>, letters
  compared after the canonicalisation of a case-insensitive regular expression, which
  on code units below 256 maps a-z and the Latin-1 small letters 224-254 (without the
  division sign 247) down by 32.
\<close>

definition toUpperChar :: "char \<Rightarrow> char" where
  "toUpperChar c =
     (let n = (of_char c :: nat) in
      if (97 \<le> n \<and> n \<le> 122) \<or> (224 \<le> n \<and> n \<le> 254 \<and> n \<noteq> 247)
      then char_of (n - 32) else c)"

definition blockedWords :: "string \<Rightarrow> bool" where
  "blockedWords s =
     (let u = map toUpperChar s
      in sublist ''MALWARE'' u \<or> sublist ''VIRUS'' u \<or> sublist ''TROJAN'' u)"

text \<open>
  \<^verbatim>\<open>s.replace(pat, rep)\<close> with a string pattern replaces the first occurrence. The
  name of a zip entry is the path without the first occurrence of the directory and a
  slash.
\<close>

fun replaceFirst :: "string \<Rightarrow> string \<Rightarrow> string \<Rightarrow> string" where
  "replaceFirst pat rep [] = (if pat = [] then rep else [])"
| "replaceFirst pat rep (c # cs) =
     (if prefix pat (c # cs) then rep @ drop (length pat) (c # cs)
      else c # replaceFirst pat rep cs)"

definition relativePath :: "string \<Rightarrow> string \<Rightarrow> string" where
  "relativePath directory p =
     (if directory \<noteq> [] then replaceFirst (directory @ ''/'') [] p else p)"

text \<open>
  The mapper given to \<^verbatim>\<open>pMap\<close>, from the point where \<^verbatim>\<open>downloadFile\<close> settles: on
  success the entry is added to the zip and \<^verbatim>\<open>downloadedFiles\<close> goes up by one; on a
  rejection the error is thrown again when the signal is aborted or the error is an
  \<^verbatim>\<open>AbortError\<close>, and otherwise the path is pushed on \<^verbatim>\<open>failedFiles\<close>.
\<close>

definition settle :: "string \<Rightarrow> repoFile \<times> fetchOutcome \<Rightarrow> session \<Rightarrow> jsError option \<times> session" where
  "settle directory item st =
     (case snd item of
        Fetched blob \<Rightarrow>
          (None, snapshot (st\<lparr>zip := zip st @ [(relativePath directory (path (fst item)), blob)],
                               downloadedFiles := downloadedFiles st + 1\<rparr>))
      | Threw error \<Rightarrow>
          if signalAborted st \<or> isAbortError error then (Some error, st)
          else (None, snapshot (st\<lparr>failedFiles := failedFiles st @ [path (fst item)]\<rparr>)))"

text \<open>
  The rest of the mapper of an abandoned fetch, from the point where \<^verbatim>\<open>downloadFile\<close>
  settles. It is the code of \<open>settle\<close>, run on the session as it is by then, with two
  differences: the entry goes to the zip of the job that started the fetch, which is
  never saved since that job has thrown, and an error thrown again reaches nobody,
  \<^verbatim>\<open>pMap\<close> having rejected already. \<open>lateSettles\<close> lets several of them settle, one
  after the other.
\<close>

definition lateSettle :: "nat \<Rightarrow> session \<Rightarrow> session" where
  "lateSettle n st =
     (if abandoned st = [] then st
      else
        (let k = n mod length (abandoned st);
             st1 = st\<lparr>abandoned := take k (abandoned st) @ drop (Suc k) (abandoned st)\<rparr>
         in case abandoned st ! k of
              (aborted, file, Fetched blob) \<Rightarrow>
                snapshot (st1\<lparr>downloadedFiles := downloadedFiles st + 1,
                              lateSettled := lateSettled st + 1\<rparr>)
            | (aborted, file, Threw error) \<Rightarrow>
                if aborted \<or> isAbortError error then st1
                else snapshot (st1\<lparr>failedFiles := failedFiles st @ [path file],
                                   lateSettled := lateSettled st + 1\<rparr>)))"

definition lateSettles :: "nat list \<Rightarrow> session \<Rightarrow> session" where
  "lateSettles ns st = foldl (\<lambda>s n. lateSettle n s) st ns"

text \<open>
  \<^verbatim>\<open>pMap(batch, mapper, {concurrency})\<close> of the p-map package, whose source is not part
  of the repository; this is its documented behaviour. A limit below 1 is refused.
  Items are started in the order of the batch while fewer than \<open>concurrency\<close> are in
  flight; starting one calls \<^verbatim>\<open>downloadFile\<close>. Otherwise the next event of the schedule
  happens (a schedule that has run out settles the oldest fetch in flight). The call is
  not given the signal, so an abort reaches it only through a mapper that throws. When
  a mapper throws, the whole call rejects with that error and nothing more is started;
  the fetches still in flight join the abandoned ones.
\<close>

definition nextEvent :: "event list \<Rightarrow> event" where
  "nextEvent sched = (case sched of [] \<Rightarrow> Settle 0 | e # _ \<Rightarrow> e)"

lemma nextEvent_user:
  "nextEvent sched = EscapeKey \<Longrightarrow> length sched - Suc 0 < length sched"
  "nextEvent sched = CancelClick \<Longrightarrow> length sched - Suc 0 < length sched"
  "nextEvent sched = Late n \<Longrightarrow> length sched - Suc 0 < length sched"
  by (cases sched; simp add: nextEvent_def)+

lemma pMap_measure:
  "pending \<noteq> [] \<Longrightarrow> Suc (2 * (length pending - Suc 0)) < 2 * length pending"
  "inflight \<noteq> [] \<Longrightarrow> \<not> length inflight \<le> n mod length inflight"
  by (cases pending; simp) (simp add: not_le)

lemma pMap_measure_settle:
  assumes "inflight \<noteq> []"
  shows "n mod length inflight + (length inflight - Suc (n mod length inflight) + (length sched - Suc 0))
         < length inflight + length (sched :: event list)"
proof -
  have "n mod length inflight < length inflight" using assms by simp
  then show ?thesis by arith
qed

function pMap ::
  "int \<Rightarrow> string \<Rightarrow> event list \<Rightarrow> (repoFile \<times> fetchOutcome) list \<Rightarrow>
   (repoFile \<times> fetchOutcome) list \<Rightarrow> session \<Rightarrow> jsError option \<times> session" where
  "pMap concurrency directory sched pending inflight st =
     (if concurrency < 1 then (Some (JsError ''Expected concurrency to be an integer from 1 and up''), st)
      else if pending \<noteq> [] \<and> int (length inflight) < concurrency then
        pMap concurrency directory sched (tl pending) (inflight @ [hd pending])
          (st\<lparr>fetchLog := fetchLog st @ [path (fst (hd pending))]\<rparr>)
      else if inflight = [] then (None, st)
      else (case nextEvent sched of
              EscapeKey \<Rightarrow> pMap concurrency directory (tl sched) pending inflight (pressEscape st)
            | CancelClick \<Rightarrow> pMap concurrency directory (tl sched) pending inflight (clearAll st)
            | Late n \<Rightarrow> pMap concurrency directory (tl sched) pending inflight (lateSettle n st)
            | Settle n \<Rightarrow>
                (let k = n mod length inflight in
                 case settle directory (inflight ! k) st of
                   (Some error, st') \<Rightarrow>
                     (Some error,
                      st'\<lparr>abandoned := abandoned st'
                            @ map (Pair (signalAborted st')) (take k inflight @ drop (Suc k) inflight)\<rparr>)
                 | (None, st') \<Rightarrow>
                     pMap concurrency directory (tl sched) pending
                       (take k inflight @ drop (Suc k) inflight) st')))"
  by pat_completeness auto
termination
  by (relation "measure (\<lambda>(c, d, sched, pending, inflight, st).
        2 * length pending + length inflight + length sched)")
     (auto simp: nextEvent_user pMap_measure pMap_measure_settle)

declare pMap.simps [simp del]

text \<open>\<^verbatim>\<open>downloadBatch\<close>: one call of \<^verbatim>\<open>pMap\<close> over a batch, each file with the outcome
  the outside world has for it in this pass.\<close>

definition downloadBatch ::
  "int \<Rightarrow> string \<Rightarrow> (repoFile \<Rightarrow> fetchOutcome) \<Rightarrow> event list \<Rightarrow> repoFile list \<Rightarrow> string \<Rightarrow>
   session \<Rightarrow> jsError option \<times> session" where
  "downloadBatch concurrency directory outcomeOf sched batch attemptLabel st =
     pMap concurrency directory sched (map (\<lambda>file. (file, outcomeOf file)) batch) []
       (snapshot (st\<lparr>batchLog := batchLog st @ [(attemptLabel, batch, concurrency)]\<rparr>))"

text \<open>The \<^verbatim>\<open>catch\<close> around the two passes.\<close>

definition batchError :: "bool \<Rightarrow> bool \<Rightarrow> jsError \<Rightarrow> jsError" where
  "batchError aborted onLine error =
     (if aborted \<or> isAbortError error then AbortError
      else if \<not> onLine then JsError ''Network connection was lost while downloading files.''
      else if isError error \<and> (case error of JsError message \<Rightarrow> startsWith message ''HTTP '' | _ \<Rightarrow> False)
        then JsError ''One or more files could not be downloaded from GitHub.''
      else error)"

fun joinWith :: "string \<Rightarrow> string list \<Rightarrow> string" where
  "joinWith sep [] = []"
| "joinWith sep [p] = p"
| "joinWith sep (p # q # ps) = p @ sep @ joinWith sep (q # ps)"

definition buildDefaultFilename :: "string \<Rightarrow> string \<Rightarrow> string option \<Rightarrow> string \<Rightarrow> string" where
  "buildDefaultFilename user repository gitReference directory =
     (let parts = filter (\<lambda>part. part \<noteq> [])
            [user, repository, (case gitReference of None \<Rightarrow> [] | Some r \<Rightarrow> r),
             (if directory \<noteq> [] then directory else ''root'')]
      in sanitizeFilename (joinWith ''-'' parts))"

definition orElse :: "string \<Rightarrow> string \<Rightarrow> string" where
  "orElse a b = (if a \<noteq> [] then a else b)"

text \<open>
  What \<^verbatim>\<open>getRepositoryInfo\<close> returns for a directory, the options of
  \<^verbatim>\<open>downloadDirectory\<close>, and what the outside world does during one job: what
  \<^verbatim>\<open>parseGithubUrl\<close> makes of the link (it relies on the platform's URL parser),
  \<^verbatim>\<open>navigator.onLine\<close>, the answers of \<^verbatim>\<open>getRepositoryInfo\<close> and \<^verbatim>\<open>listFiles\<close>, the
  outcome of each fetch in pass 1 and pass 2, the events during each pass, and the
  response to the request for a whole private repository. Abandoned fetches can also
  settle while the job waits for something else than a pass: \<open>lateInfo\<close> names those
  that settle before the passes, while the job waits for the repository information,
  the listing or the archive of a whole repository (what the job writes to the
  counters before the passes it writes after the last of these waits, so it makes no
  difference during which of them a fetch settles), and \<open>lateZip\<close> those that settle
  while the zip is generated. What abandoned fetches do once no job runs any more is
  outside the model, and so are keys and clicks of the user outside the passes.
\<close>

record repoPath =
  user :: string
  repository :: string
  gitReference :: string
  directory :: string
  isPrivate :: bool

record dirOptions = repoPath +
  filterExts :: "string list"

datatype repoInfo = RepoError string | RepoDirectory repoPath | RepoArchive repoPath string

record jobEnv =
  githubUrl :: "string option"
  online :: bool
  repositoryInfo :: "jsError + repoInfo"
  listing :: "jsError + repoFile list"
  outcome :: "nat \<Rightarrow> repoFile \<Rightarrow> fetchOutcome"
  sched1 :: "event list"
  sched2 :: "event list"
  onlineAfterBatch :: bool
  archiveResponse :: "jsError + (bool \<times> string \<times> blob)"
  lateInfo :: "nat list"
  lateZip :: "nat list"

text \<open>
  How a download ends when it does not throw: the listing was empty, no file matched
  the filter, an archive was saved under a name, or the browser was sent to the archive
  of a public repository.
\<close>

datatype dirResult = NoFiles | NoMatch | Saved string | Navigated

text \<open>
  \<^verbatim>\<open>downloadDirectory\<close>, from the point where \<^verbatim>\<open>listFiles\<close> has answered. An empty
  listing and an empty filtered list end the job without an error; a blocked path
  throws before the counters are set and before any fetch. Then the counters are set,
  the first pass runs over the filtered list, and when it leaves failures, the failure
  record is cleared and the second pass runs over the files whose path is in it. After
  the passes the zip is generated and saved.
\<close>

definition finishDownload :: "dirOptions \<Rightarrow> jobEnv \<Rightarrow> session \<Rightarrow> (jsError + dirResult) \<times> session" where
  "finishDownload options env st0 =
     (let st = lateSettles (lateZip env) st0;
          fallbackName = buildDefaultFilename (user options) (repository options)
                           (Some (gitReference options)) (directory options);
          filename = ensureZipFilename (orElse (trim (uiFilename st)) fallbackName)
      in (Inr (Saved filename), st\<lparr>savedFiles := savedFiles st @ [(filename, ZipArchive (zip st))]\<rparr>))"

definition retryPass ::
  "dirOptions \<Rightarrow> jobEnv \<Rightarrow> int \<Rightarrow> repoFile list \<Rightarrow> session \<Rightarrow> (jsError + dirResult) \<times> session" where
  "retryPass options env safeConcurrency' filteredFiles st =
     (if length (failedFiles st) > 0 then
        (let retryTargets = filter (\<lambda>file. path file \<in> set (failedFiles st)) filteredFiles;
             st1 = st\<lparr>failedFiles := []\<rparr>
         in case downloadBatch safeConcurrency' (directory options) (outcome env 2) (sched2 env)
                   retryTargets ''Retrying failed files...'' st1 of
              (Some error, st2) \<Rightarrow>
                (Inl (batchError (signalAborted st2) (onlineAfterBatch env) error), st2)
            | (None, st2) \<Rightarrow> finishDownload options env st2)
      else finishDownload options env st)"

definition downloadDirectory :: "dirOptions \<Rightarrow> jobEnv \<Rightarrow> session \<Rightarrow> (jsError + dirResult) \<times> session" where
  "downloadDirectory options env st =
     (case listing env of
        Inl error \<Rightarrow> (Inl error, st)
      | Inr files \<Rightarrow>
          if length files = 0 then (Inr NoFiles, st\<lparr>totalFiles := 0, downloadedFiles := 0\<rparr>)
          else
            (let filteredFiles = filterFiles files (filterExts options) in
             if length filteredFiles = 0 then (Inr NoMatch, st)
             else if list_ex (\<lambda>file. blockedWords (path file)) filteredFiles then
               (Inl (JsError ''Suspicious filename found. Download canceled.''), st)
             else
               (let st1 = st\<lparr>totalFiles := length filteredFiles, downloadedFiles := 0,
                            estimatedBytes := estimateBytes filteredFiles\<rparr>;
                    st2 = st1\<lparr>zip := []\<rparr>;
                    safeConcurrency' = safeConcurrency (uiConcurrency st);
                    st3 = st2\<lparr>failedFiles := []\<rparr>
                in case downloadBatch safeConcurrency' (directory options) (outcome env 1) (sched1 env)
                          filteredFiles ''Downloading files...'' st3 of
                     (Some error, st4) \<Rightarrow>
                       (Inl (batchError (signalAborted st4) (onlineAfterBatch env) error), st4)
                   | (None, st4) \<Rightarrow> retryPass options env safeConcurrency' filteredFiles st4)))"

subsection \<open>An invariant rule for the pool\<close>











subsection \<open>Abandoned fetches that settle\<close>










subsection \<open>The branches of a directory download\<close>



section \<open>Jobs and the queue\<close>










subsection \<open>What a job leaves of the queue\<close>

text \<open>
  What a step of a job does to the queue: \<open>cleared\<close> can only grow; while it has not
  grown the queue is as it was, and once it has grown the queue is empty. The links
  \<^verbatim>\<open>runDownload\<close> was called with and the flag of the loop stay. The flag \<open>click\<close> says
  whether a click on Cancel or Clear is possible at all.
\<close>

definition queueFrame :: "bool \<Rightarrow> session \<Rightarrow> session \<Rightarrow> bool" where
  "queueFrame click st0 st \<longleftrightarrow>
     cleared st0 \<le> cleared st
     \<and> (\<not> click \<longrightarrow> cleared st = cleared st0)
     \<and> (cleared st = cleared st0 \<longrightarrow> queue st = queue st0)
     \<and> (cleared st \<noteq> cleared st0 \<longrightarrow> queue st = [])
     \<and> runLog st = runLog st0 \<and> isProcessingQueue st = isProcessingQueue st0"

lemma queueFrame_refl: "queueFrame k st st"
  by (simp add: queueFrame_def)


















subsection \<open>The queue runner\<close>









section \<open>The claims about a download\<close>

subsection \<open>A sample job\<close>

text \<open>
  A directory of three files; the fetch of \<open>d/b.ts\<close> fails in the first pass and
  succeeds in the second, it settles first, and Escape is pressed after it.
\<close>

definition idleSession :: session where
  "idleSession = \<lparr>controller = False, signalAborted = False, totalFiles = 0, downloadedFiles = 0,
     estimatedBytes = 0, failedFiles = [], queue = [], isProcessingQueue = False,
     uiFilename = [], uiFilter = [], uiConcurrency = ''20'', storedToken = None,
     storedRecent = NoEntry, zip = [], fetchLog = [], batchLog = [], savedFiles = [],
     navigations = [], runLog = [], abandoned = [], cleared = 0, lateSettled = 0, trace = []\<rparr>"

definition sampleOptions :: dirOptions where
  "sampleOptions = \<lparr>user = ''u'', repository = ''r'', gitReference = ''main'', directory = ''d'',
     isPrivate = False, filterExts = []\<rparr>"

definition sampleFiles :: "repoFile list" where
  "sampleFiles =
     [\<lparr>path = ''d/a.ts'', fileSize = Some 3, sha = ''1''\<rparr>,
      \<lparr>path = ''d/b.ts'', fileSize = None, sha = ''2''\<rparr>,
      \<lparr>path = ''d/c.md'', fileSize = Some 4, sha = ''3''\<rparr>]"

definition sampleEnv :: jobEnv where
  "sampleEnv = \<lparr>githubUrl = Some ''https://github.com/u/r/tree/main/d'', online = True,
     repositoryInfo = Inr (RepoDirectory \<lparr>user = ''u'', repository = ''r'', gitReference = ''main'',
       directory = ''d'', isPrivate = False\<rparr>),
     listing = Inr sampleFiles,
     outcome = (\<lambda>pass file. if path file = ''d/b.ts'' \<and> pass = 1 then Threw (JsError ''HTTP 500'')
                             else Fetched (path file)),
     sched1 = [Settle 1, EscapeKey], sched2 = [], onlineAfterBatch = True,
     archiveResponse = Inl NonError, lateInfo = [], lateZip = []\<rparr>"

text \<open>A listing with a blocked name, and a listing that has the same path twice.\<close>

definition blockedFiles :: "repoFile list" where
  "blockedFiles =
     [\<lparr>path = ''d/a.ts'', fileSize = Some 3, sha = ''1''\<rparr>,
      \<lparr>path = ''d/Virus.ts'', fileSize = Some 9, sha = ''2''\<rparr>]"





text \<open>
  Claim C7. When the listing succeeds and some path of the filtered list matches the
  blocked words, \<open>downloadDirectory\<close> throws the error of the suspicious file name and
  leaves the session as it was: \<^verbatim>\<open>downloadFile\<close> has been called for no file, of the
  flagged ones or of the others, nothing has been added to a zip and nothing saved.
\<close>

theorem blocked_path_aborts:
  assumes "listing env = Inr files"
    and "\<exists>file\<in>set (filterFiles files (filterExts options)). blockedWords (path file)"
  shows "downloadDirectory options env st =
           (Inl (JsError ''Suspicious filename found. Download canceled.''), st)
         \<and> fetchLog (snd (downloadDirectory options env st)) = fetchLog st
         \<and> savedFiles (snd (downloadDirectory options env st)) = savedFiles st"
proof -
  let ?filtered = "filterFiles files (filterExts options)"
  have ne: "?filtered \<noteq> []" using assms(2) by auto
  have "set ?filtered \<subseteq> set files" by (auto simp: filterFiles_def)
  then have nf: "files \<noteq> []" using ne by auto
  have b: "list_ex (\<lambda>file. blockedWords (path file)) ?filtered"
    using assms(2) by (simp add: list_ex_iff)
  show ?thesis using assms(1) ne nf b by (simp add: downloadDirectory_def Let_def)
qed

theorem blocked_path_aborts_witness:
  "listing (sampleEnv\<lparr>listing := Inr blockedFiles\<rparr>) = Inr blockedFiles
   \<and> list_ex (\<lambda>file. blockedWords (path file)) (filterFiles blockedFiles (filterExts sampleOptions))
   \<and> downloadDirectory sampleOptions (sampleEnv\<lparr>listing := Inr blockedFiles\<rparr>) idleSession =
       (Inl (JsError ''Suspicious filename found. Download canceled.''), idleSession)
   \<and> fetchLog (snd (downloadDirectory sampleOptions (sampleEnv\<lparr>listing := Inr blockedFiles\<rparr>)
                      idleSession)) = []"
proof -
  let ?env = "sampleEnv\<lparr>listing := Inr blockedFiles\<rparr>"
  have h1: "listing ?env = Inr blockedFiles" by simp
  have h2: "list_ex (\<lambda>file. blockedWords (path file))
              (filterFiles blockedFiles (filterExts sampleOptions))"
    by code_simp
  then have h3: "\<exists>file\<in>set (filterFiles blockedFiles (filterExts sampleOptions)).
                   blockedWords (path file)"
    by (simp add: list_ex_iff)
  have f: "fetchLog idleSession = []" by (simp add: idleSession_def)
  show ?thesis
    using blocked_path_aborts[OF h1 h3, of idleSession] h1 h2 f by simp
qed



subsection \<open>The counters during the passes\<close>













































subsection \<open>Two passes without cancellation\<close>




















subsection \<open>Cancelling a queued job\<close>









end
